theory Spec2Isabelle
  imports Main "HOL-Library.Multiset"
begin

section \<open>Data model\<close>

text \<open>
  A calendar date is modelled by its day number counted from 1970-01-01 (day 0), an
  \<open>int\<close>, so that comparing dates is comparing integers and one day later is \<open>+ 1\<close>.
  Python's \<open>date\<close> ranges from \<open>date.min\<close> (0001-01-01, day -719162) to \<open>date.max\<close>
  (9999-12-31, day 2932896); adding a \<open>timedelta\<close> that leaves this range raises
  \<open>OverflowError\<close>.
  Identifiers (UUIDs in the source) are natural numbers.
\<close>

type_synonym date = int
type_synonym uuid = nat

definition date_min :: date where
  "date_min = - 719162"

definition date_max :: date where
  "date_max = 2932896"

text \<open>
  \<open>app/schema/vacation.py\<close>: \<open>VacationBase\<close> carries \<open>start_date\<close>, \<open>end_date\<close> and
  \<open>type\<close>. \<open>app/model/vacation.py\<close>: a row of table \<open>vacation\<close> has the same three
  columns plus \<open>id\<close> and \<open>employee_id\<close>, so the row type extends the payload record.
  The column \<open>id\<close> is named \<open>vac_id\<close> here, since \<open>id\<close> is the identity function of HOL.
\<close>

record VacationBase =
  start_date :: date
  end_date :: date
  type :: int

record VacationModel = VacationBase +
  vac_id :: uuid
  employee_id :: uuid

record EmployeeModel =
  emp_id :: uuid
  first_name :: string
  last_name :: string

text \<open>
  A field of \<open>VacationUpdate\<close> (\<open>Optional[...] = None\<close>) is in one of three states:
  not supplied, supplied as \<open>null\<close>, or supplied with a value. Reading the attribute
  gives \<open>None\<close> in the first two; \<open>dict(exclude_unset=True)\<close> has a key for the last two.
\<close>

datatype 'a field = Unset | Null | Given 'a

fun attr :: "'a field \<Rightarrow> 'a option" where
  "attr Unset = None"
| "attr Null = None"
| "attr (Given x) = Some x"

record VacationUpdate =
  upd_start_date :: "date field"
  upd_end_date :: "date field"
  upd_type :: "int field"

datatype error =
  ValueError string
| TypeError string
| ValidationError string
| IntegrityError string
| ArgumentError string
| OverflowError string

text \<open>\<open>d - timedelta(days=1)\<close> and \<open>d + timedelta(days=1)\<close>.\<close>

definition minus_one_day :: "date \<Rightarrow> error + date" where
  "minus_one_day d =
     (if d - 1 < date_min then Inl (OverflowError ''date value out of range'') else Inr (d - 1))"

definition plus_one_day :: "date \<Rightarrow> error + date" where
  "plus_one_day d =
     (if date_max < d + 1 then Inl (OverflowError ''date value out of range'') else Inr (d + 1))"

text \<open>
  Modelled from the spec: \<open>app/model/base.py\<close> (the \<open>id\<close> column and its default) is not
  among the sources; the spec says \<open>id\<close> is an "opaque unique identifier, assigned at
  creation, immutable". Fresh ids are drawn from the counter \<open>next_id\<close> of the session.

  The database session holds the two tables, in row order, and that counter.
\<close>

record session =
  employees :: "EmployeeModel list"
  vacations :: "VacationModel list"
  next_id :: uuid

section \<open>Schema validation (\<open>app/schema/vacation.py\<close>)\<close>

text \<open>
  Constructing a \<open>VacationBase\<close> runs its validators: \<open>type\<close> is \<open>Literal[0, 1]\<close> and
  \<open>validate_dates\<close> rejects \<open>end_date < start_date\<close>.
\<close>

definition VacationBase_init :: "int \<Rightarrow> date \<Rightarrow> date \<Rightarrow> error + VacationBase" where
  "VacationBase_init ty sd ed =
     (if ed < sd then Inl (ValidationError ''end_date cannot be before start_date'')
      else if ty \<noteq> 0 \<and> ty \<noteq> 1 then Inl (ValidationError ''Input should be 0 or 1'')
      else Inr \<lparr>start_date = sd, end_date = ed, type = ty\<rparr>)"

text \<open>
  \<open>VacationUpdate.validate_dates\<close> only runs on a supplied \<open>end_date\<close> and only compares
  when both dates are present.
\<close>

definition VacationUpdate_init ::
  "date field \<Rightarrow> date field \<Rightarrow> int field \<Rightarrow> error + VacationUpdate" where
  "VacationUpdate_init sd ed ty =
     (case (attr sd, attr ed) of
        (Some a, Some b) \<Rightarrow>
          if b < a then Inl (ValidationError ''end_date cannot be before start_date'')
          else (case attr ty of
                  Some t \<Rightarrow> if t \<noteq> 0 \<and> t \<noteq> 1 then Inl (ValidationError ''Input should be 0 or 1'')
                            else Inr \<lparr>upd_start_date = sd, upd_end_date = ed, upd_type = ty\<rparr>
                | None \<Rightarrow> Inr \<lparr>upd_start_date = sd, upd_end_date = ed, upd_type = ty\<rparr>)
      | _ \<Rightarrow>
          (case attr ty of
             Some t \<Rightarrow> if t \<noteq> 0 \<and> t \<noteq> 1 then Inl (ValidationError ''Input should be 0 or 1'')
                       else Inr \<lparr>upd_start_date = sd, upd_end_date = ed, upd_type = ty\<rparr>
           | None \<Rightarrow> Inr \<lparr>upd_start_date = sd, upd_end_date = ed, upd_type = ty\<rparr>))"

section \<open>Repositories\<close>

subsection \<open>\<open>app/repository/vacation.py\<close>\<close>

definition get_by_id :: "session \<Rightarrow> uuid \<Rightarrow> VacationModel option" where
  "get_by_id s vacation_id = find (\<lambda>v. vac_id v = vacation_id) (vacations s)"

definition get_by_employee :: "session \<Rightarrow> uuid \<Rightarrow> VacationModel list" where
  "get_by_employee s eid = filter (\<lambda>v. employee_id v = eid) (vacations s)"

text \<open>\<open>create\<close>: build the row from the payload, add it, commit, return it.\<close>

definition create :: "session \<Rightarrow> VacationBase \<Rightarrow> uuid \<Rightarrow> VacationModel \<times> session" where
  "create s obj_in eid =
     (let db_obj = \<lparr>start_date = start_date obj_in, end_date = end_date obj_in,
                     type = type obj_in, vac_id = next_id s, employee_id = eid\<rparr>
      in (db_obj, s\<lparr>vacations := vacations s @ [db_obj], next_id := Suc (next_id s)\<rparr>))"

text \<open>
  \<open>delete\<close>: look the row up; if it is there, delete it (by primary key), commit and
  return it; otherwise return \<open>None\<close>.
\<close>

definition delete :: "session \<Rightarrow> uuid \<Rightarrow> VacationModel option \<times> session" where
  "delete s vacation_id =
     (case get_by_id s vacation_id of
        Some vacation \<Rightarrow>
          (Some vacation,
           s\<lparr>vacations := filter (\<lambda>v. vac_id v \<noteq> vacation_id) (vacations s)\<rparr>)
      | None \<Rightarrow> (None, s))"

text \<open>
  \<open>patch\<close>: \<open>obj_in\<close> is the dictionary of the supplied fields; each is set on the row.
  All three columns are \<open>nullable=False\<close>, so committing a \<open>None\<close> fails.
\<close>

fun set_column :: "int field \<Rightarrow> int \<Rightarrow> error + int" where
  "set_column Unset old = Inr old"
| "set_column Null old = Inl (IntegrityError ''null value violates not-null constraint'')"
| "set_column (Given x) old = Inr x"

definition patch ::
  "session \<Rightarrow> uuid \<Rightarrow> VacationUpdate \<Rightarrow> (error + VacationModel option) \<times> session" where
  "patch s vacation_id obj_in =
     (case get_by_id s vacation_id of
        None \<Rightarrow> (Inr None, s)
      | Some vacation \<Rightarrow>
          (case set_column (upd_start_date obj_in) (start_date vacation) of
             Inl e \<Rightarrow> (Inl e, s)
           | Inr sd \<Rightarrow>
          (case set_column (upd_end_date obj_in) (end_date vacation) of
             Inl e \<Rightarrow> (Inl e, s)
           | Inr ed \<Rightarrow>
          (case set_column (upd_type obj_in) (type vacation) of
             Inl e \<Rightarrow> (Inl e, s)
           | Inr ty \<Rightarrow>
               (let vacation' = vacation\<lparr>start_date := sd, end_date := ed, type := ty\<rparr>
                in (Inr (Some vacation'),
                    s\<lparr>vacations := map (\<lambda>v. if vac_id v = vacation_id then vacation' else v)
                                         (vacations s)\<rparr>))))))"

text \<open>
  \<open>get_overlapping_or_contiguous\<close>. The arguments may be \<open>None\<close> (the update path passes
  the attributes of a \<open>VacationUpdate\<close>). Python builds the arguments of \<open>or_\<close> from left
  to right, before any query runs:
  \<^item> \<open>VacationModel.start_date <= end_date\<close> and \<open>VacationModel.end_date >= start_date\<close>:
    SQLAlchemy refuses an ordering comparison with \<open>None\<close> (\<open>ArgumentError\<close>);
  \<^item> \<open>start_date - timedelta(days=1)\<close>, then \<open>end_date + timedelta(days=1)\<close>: each raises
    \<open>OverflowError\<close> when it leaves the range of \<open>date\<close>.
  \<open>VacationModel.type == None\<close> is the SQL test \<open>type IS NULL\<close>, which no row of the
  non-nullable column satisfies. \<open>order_by(start_date)\<close> is modelled by the stable sort
  on the key.
\<close>

definition type_matches :: "int option \<Rightarrow> VacationModel \<Rightarrow> bool" where
  "type_matches vacation_type v =
     (case vacation_type of None \<Rightarrow> False | Some t \<Rightarrow> type v = t)"

definition get_overlapping_or_contiguous ::
  "session \<Rightarrow> uuid \<Rightarrow> int option \<Rightarrow> date option \<Rightarrow> date option \<Rightarrow> error + VacationModel list" where
  "get_overlapping_or_contiguous s eid vacation_type sd_opt ed_opt =
     (case ed_opt of
        None \<Rightarrow> Inl (ArgumentError ''operator cannot be used with None'')
      | Some ed \<Rightarrow>
     (case sd_opt of
        None \<Rightarrow> Inl (ArgumentError ''operator cannot be used with None'')
      | Some sd \<Rightarrow>
     (case minus_one_day sd of
        Inl e \<Rightarrow> Inl e
      | Inr day_before \<Rightarrow>
     (case plus_one_day ed of
        Inl e \<Rightarrow> Inl e
      | Inr day_after \<Rightarrow>
          Inr (sort_key start_date
                 (filter (\<lambda>v. employee_id v = eid \<and> type_matches vacation_type v \<and>
                               ((start_date v \<le> ed \<and> end_date v \<ge> sd) \<or>
                                (start_date v \<ge> sd \<and> start_date v \<le> ed) \<or>
                                end_date v = day_before \<or>
                                start_date v = day_after))
                         (vacations s)))))))"

subsection \<open>\<open>app/repository/employee.py\<close>\<close>

text \<open>
  Modelled from the spec: \<open>BaseRepository.get\<close> of \<open>app/repository/base.py\<close> is not among
  the sources. The spec gives the stores the lookups \<open>get(employeeId) -> Employee?\<close> and
  \<open>findById(id) -> Interval?\<close>: the row with that id, or nothing.
\<close>

definition EmployeeRepository_get :: "session \<Rightarrow> uuid \<Rightarrow> EmployeeModel option" where
  "EmployeeRepository_get s eid = find (\<lambda>e. emp_id e = eid) (employees s)"

text \<open>
  Modelled from the spec: the same \<open>BaseRepository.get\<close>, inherited by the vacation
  repository (\<open>findById(id) -> Interval?\<close>).
\<close>

definition VacationRepository_get :: "session \<Rightarrow> uuid \<Rightarrow> VacationModel option" where
  "VacationRepository_get s vid = find (\<lambda>v. vac_id v = vid) (vacations s)"

section \<open>The vacation service (\<open>app/services/vacation.py\<close>)\<close>

definition get_employee :: "session \<Rightarrow> uuid \<Rightarrow> error + EmployeeModel" where
  "get_employee s eid =
     (case EmployeeRepository_get s eid of
        None \<Rightarrow> Inl (ValueError ''Employee not found'')
      | Some employee \<Rightarrow> Inr employee)"

text \<open>The loop \<open>for vac in existing_vacations: VacationRepository.delete(session, vac.id)\<close>.\<close>

fun delete_all :: "session \<Rightarrow> VacationModel list \<Rightarrow> session" where
  "delete_all s [] = s"
| "delete_all s (vac # rest) = delete_all (snd (delete s (vac_id vac))) rest"

definition create_vacation ::
  "session \<Rightarrow> uuid \<Rightarrow> VacationBase \<Rightarrow> (error + VacationModel) \<times> session" where
  "create_vacation s eid vacation_data =
     (case get_employee s eid of
        Inl e \<Rightarrow> (Inl e, s)
      | Inr employee \<Rightarrow>
     (case get_overlapping_or_contiguous s eid (Some (type vacation_data))
             (Some (start_date vacation_data)) (Some (end_date vacation_data)) of
        Inl e \<Rightarrow> (Inl e, s)
      | Inr existing_vacations \<Rightarrow>
          if existing_vacations \<noteq> [] then
            (let new_start = min (start_date vacation_data) (start_date (hd existing_vacations));
                 new_end = max (end_date vacation_data) (end_date (last existing_vacations));
                 s1 = delete_all s existing_vacations
             in case VacationBase_init (type vacation_data) new_start new_end of
                  Inl e \<Rightarrow> (Inl e, s1)
                | Inr vacation \<Rightarrow>
                    (case create s1 vacation (emp_id employee) of
                       (db_obj, s2) \<Rightarrow> (Inr db_obj, s2)))
          else
            (case create s vacation_data (emp_id employee) of
               (db_obj, s2) \<Rightarrow> (Inr db_obj, s2))))"

text \<open>
  The relationship \<open>employee.vacations\<close> (\<open>back_populates\<close> over the foreign key):
  the rows of table \<open>vacation\<close> whose \<open>employee_id\<close> is the employee's id.
\<close>

definition employee_vacations :: "session \<Rightarrow> EmployeeModel \<Rightarrow> VacationModel list" where
  "employee_vacations s employee =
     filter (\<lambda>v. employee_id v = emp_id employee) (vacations s)"

definition get_vacations_by_employee_id ::
  "session \<Rightarrow> uuid \<Rightarrow> error + VacationModel list" where
  "get_vacations_by_employee_id s eid =
     (case get_employee s eid of
        Inl e \<Rightarrow> Inl e
      | Inr employee \<Rightarrow> Inr (employee_vacations s employee))"

text \<open>
  \<open>update_vacation\<close>. The candidate query receives the attributes of \<open>vacation_data\<close> as
  they are (\<open>None\<close> when not supplied); \<open>min\<close> and \<open>max\<close> are only reached when the query
  has returned, that is when both dates are present.
\<close>

definition update_vacation ::
  "session \<Rightarrow> uuid \<Rightarrow> uuid \<Rightarrow> VacationUpdate \<Rightarrow> (error + VacationModel option) \<times> session" where
  "update_vacation s eid vacation_id vacation_data =
     (case get_employee s eid of
        Inl e \<Rightarrow> (Inl e, s)
      | Inr employee \<Rightarrow>
          if filter (\<lambda>v. vac_id v = vacation_id) (employee_vacations s employee) = []
          then (Inl (ValueError ''Vacation not found''), s)
          else
     (let update_data = vacation_data in
      case get_overlapping_or_contiguous s eid (attr (upd_type vacation_data))
             (attr (upd_start_date vacation_data)) (attr (upd_end_date vacation_data)) of
        Inl e \<Rightarrow> (Inl e, s)
      | Inr existing_vacations \<Rightarrow>
          if existing_vacations \<noteq> [] then
            (case (attr (upd_start_date vacation_data), attr (upd_end_date vacation_data)) of
               (Some sd, Some ed) \<Rightarrow>
                 (let new_start = min sd (start_date (hd existing_vacations));
                      new_end = max ed (end_date (last existing_vacations));
                      s1 = delete_all s existing_vacations
                  in patch s1 vacation_id
                       (update_data\<lparr>upd_start_date := Given new_start,
                                    upd_end_date := Given new_end\<rparr>))
             | _ \<Rightarrow> (Inl (TypeError ''min and max of None''), s))
          else patch s vacation_id update_data))"

definition delete_vacation :: "session \<Rightarrow> uuid \<Rightarrow> uuid \<Rightarrow> (error + unit) \<times> session" where
  "delete_vacation s eid vacation_id =
     (case get_employee s eid of
        Inl e \<Rightarrow> (Inl e, s)
      | Inr employee \<Rightarrow>
     (case VacationRepository_get s vacation_id of
        None \<Rightarrow> (Inl (ValueError ''Vacation not found''), s)
      | Some vacation \<Rightarrow> (Inr (), snd (delete s vacation_id))))"

section \<open>The interval relation of the specification\<close>

text \<open>
  Two date ranges are mergeable when they overlap or are exactly one day apart.
\<close>

definition mergeable :: "date \<Rightarrow> date \<Rightarrow> date \<Rightarrow> date \<Rightarrow> bool" where
  "mergeable a1 a2 b1 b2 \<longleftrightarrow> (a1 \<le> b2 \<and> a2 \<ge> b1) \<or> b2 = a1 - 1 \<or> a2 = b1 - 1"

definition same_owner_type :: "VacationModel \<Rightarrow> VacationModel \<Rightarrow> bool" where
  "same_owner_type v w \<longleftrightarrow> employee_id v = employee_id w \<and> type v = type w"

definition touches :: "VacationModel \<Rightarrow> VacationModel \<Rightarrow> bool" where
  "touches v w \<longleftrightarrow>
     same_owner_type v w \<and> mergeable (start_date v) (end_date v) (start_date w) (end_date w)"

text \<open>No two rows (at different positions) of the same owner and type are mergeable.\<close>

fun antichain :: "VacationModel list \<Rightarrow> bool" where
  "antichain [] = True"
| "antichain (v # vs) = ((\<forall>w \<in> set vs. \<not> touches v w) \<and> antichain vs)"

text \<open>The data-model invariant of a stored interval: \<open>startDate <= endDate\<close>.\<close>

definition well_formed :: "VacationModel list \<Rightarrow> bool" where
  "well_formed vs \<longleftrightarrow> (\<forall>v \<in> set vs. start_date v \<le> end_date v)"

text \<open>Row ids are unique (primary key) and were drawn from the counter.\<close>

definition ids_ok :: "session \<Rightarrow> bool" where
  "ids_ok s \<longleftrightarrow> distinct (map vac_id (vacations s)) \<and> (\<forall>v \<in> set (vacations s). vac_id v < next_id s)"

text \<open>
  The invariant of a stored table: the antichain property, the data-model invariant of
  every row, and unique row ids.
\<close>

definition store_invariant :: "session \<Rightarrow> bool" where
  "store_invariant s \<longleftrightarrow> antichain (vacations s) \<and> well_formed (vacations s) \<and> ids_ok s"

section \<open>Merge bounds\<close>

text \<open>
  The bounds computed by \<open>create_vacation\<close> (lines 65-66) and \<open>update_vacation\<close>
  (lines 143-144), under their guard \<open>if existing_vacations\<close>: the start of the first
  and the end of the last candidate.
\<close>

definition reference_bounds :: "date \<Rightarrow> date \<Rightarrow> VacationModel list \<Rightarrow> (date \<times> date) option" where
  "reference_bounds sd ed M =
     (if M \<noteq> [] then Some (min sd (start_date (hd M)), max ed (end_date (last M))) else None)"

text \<open>
  The robust variant described by the specification: \<open>min\<close> and \<open>max\<close> reduced over the
  whole candidate list and the new range.
\<close>

definition robust_bounds :: "date \<Rightarrow> date \<Rightarrow> VacationModel list \<Rightarrow> (date \<times> date) option" where
  "robust_bounds sd ed M =
     (if M \<noteq> [] then Some (fold min (map start_date M) sd, fold max (map end_date M) ed)
      else None)"

section \<open>Example states\<close>

definition ada :: EmployeeModel where
  "ada = \<lparr>emp_id = 1, first_name = ''Ada'', last_name = ''Lovelace''\<rparr>"

definition bob :: EmployeeModel where
  "bob = \<lparr>emp_id = 2, first_name = ''Bob'', last_name = ''Kahn''\<rparr>"

definition row :: "uuid \<Rightarrow> uuid \<Rightarrow> int \<Rightarrow> date \<Rightarrow> date \<Rightarrow> VacationModel" where
  "row i e t a b = \<lparr>start_date = a, end_date = b, type = t, vac_id = i, employee_id = e\<rparr>"

text \<open>Ada has two Paid vacations, days 1 to 5 and days 10 to 15; Bob has none.\<close>

definition two_paid :: session where
  "two_paid = \<lparr>employees = [ada, bob],
               vacations = [row 0 1 1 1 5, row 1 1 1 10 15], next_id = 2\<rparr>"

text \<open>
  Ada has one Paid vacation, days 1 to 4, and an Unpaid one, days 3 to 8; Bob has a Paid
  one, days 5 to 6.
\<close>

definition paid_1_4 :: session where
  "paid_1_4 = \<lparr>employees = [ada, bob],
               vacations = [row 0 1 1 1 4, row 1 1 0 3 8, row 2 2 1 5 6], next_id = 3\<rparr>"

text \<open>A table whose only row ends (day 2) before it starts (day 7).\<close>

definition inverted_row :: session where
  "inverted_row = \<lparr>employees = [ada, bob], vacations = [row 0 1 1 7 2], next_id = 1\<rparr>"

text \<open>The empty tables with the two employees, before any vacation was created.\<close>

definition no_vacations :: session where
  "no_vacations = \<lparr>employees = [ada, bob], vacations = [], next_id = 0\<rparr>"

section \<open>Search (\<open>app/repository/vacation.py\<close>, \<open>app/api/routes/vacation.py\<close>)\<close>

text \<open>
  \<open>search\<close>: the supplied filters are conjoined. A date and a UUID are always true in a
  Python condition, so \<open>if start_date\<close> tests for \<open>None\<close>; a string is true when it is
  not empty. Filtering by name joins the employee of each row. The SQL operator \<open>ILIKE\<close>
  belongs to the database: it is the parameter \<open>ilike\<close> (value, pattern).
\<close>

definition opt_eq :: "'a option \<Rightarrow> 'a \<Rightarrow> bool" where
  "opt_eq filt x = (case filt of None \<Rightarrow> True | Some y \<Rightarrow> x = y)"

definition truthy :: "string option \<Rightarrow> bool" where
  "truthy x = (case x of None \<Rightarrow> False | Some str \<Rightarrow> str \<noteq> [])"

definition name_matches ::
  "(string \<Rightarrow> string \<Rightarrow> bool) \<Rightarrow> string option \<Rightarrow> string \<Rightarrow> bool" where
  "name_matches ilike filt name =
     (case filt of
        None \<Rightarrow> True
      | Some str \<Rightarrow> if str = [] then True else ilike name (''%'' @ str @ ''%''))"

definition search ::
  "(string \<Rightarrow> string \<Rightarrow> bool) \<Rightarrow> session \<Rightarrow> date option \<Rightarrow> date option \<Rightarrow> int option \<Rightarrow>
   uuid option \<Rightarrow> string option \<Rightarrow> string option \<Rightarrow> VacationModel list" where
  "search ilike s sd ed vacation_type eid fname lname =
     filter (\<lambda>v. opt_eq sd (start_date v) \<and> opt_eq ed (end_date v) \<and>
                  opt_eq vacation_type (type v) \<and> opt_eq eid (employee_id v) \<and>
                  (if truthy fname \<or> truthy lname
                   then list_ex (\<lambda>e. emp_id e = employee_id v \<and>
                                      name_matches ilike fname (first_name e) \<and>
                                      name_matches ilike lname (last_name e)) (employees s)
                   else True))
            (vacations s)"

text \<open>
  A Python call that passes every argument by keyword: it raises \<open>TypeError\<close> when a
  keyword is not the name of a parameter, or when a parameter without a default gets no
  argument; otherwise the body runs.
\<close>

definition call_keywords :: "string list \<Rightarrow> string list \<Rightarrow> string list \<Rightarrow> error + unit" where
  "call_keywords required optional keywords =
     (case filter (\<lambda>k. k \<notin> set required \<and> k \<notin> set optional) keywords of
        k # _ \<Rightarrow> Inl (TypeError (''got an unexpected keyword argument '' @ k))
      | [] \<Rightarrow>
          (case filter (\<lambda>p. p \<notin> set keywords) required of
             p # _ \<Rightarrow> Inl (TypeError (''missing required argument '' @ p))
           | [] \<Rightarrow> Inr ()))"

text \<open>
  \<open>_VacationService.search_vacations(self, session, start_date, end_date, type,
  employee_id, first_name, last_name)\<close> calls \<open>repository.search\<close> with the keywords
  \<open>session, start_date, end_date, vacation_type, employee_id, first_name, last_name\<close>;
  of the parameters of \<open>search\<close> only \<open>session\<close> has no default.
\<close>

definition service_search_vacations ::
  "(string \<Rightarrow> string \<Rightarrow> bool) \<Rightarrow> session \<Rightarrow> date option \<Rightarrow> date option \<Rightarrow> int option \<Rightarrow>
   uuid option \<Rightarrow> string option \<Rightarrow> string option \<Rightarrow> error + VacationModel list" where
  "service_search_vacations ilike s sd ed ty eid fname lname =
     (case call_keywords [''session'']
             [''start_date'', ''end_date'', ''vacation_type'', ''employee_id'',
              ''first_name'', ''last_name'']
             [''session'', ''start_date'', ''end_date'', ''vacation_type'', ''employee_id'',
              ''first_name'', ''last_name''] of
        Inl e \<Rightarrow> Inl e
      | Inr _ \<Rightarrow> Inr (search ilike s sd ed ty eid fname lname))"

text \<open>
  The route handler \<open>search_vacations\<close> of \<open>app/api/routes/vacation.py\<close> calls the service
  method with the keywords \<open>session, start_date, end_date, vacation_type, employee_id,
  first_name, last_name\<close>; the method's parameters, none with a default, are \<open>session,
  start_date, end_date, type, employee_id, first_name, last_name\<close>.
\<close>

definition route_search_vacations ::
  "(string \<Rightarrow> string \<Rightarrow> bool) \<Rightarrow> session \<Rightarrow> date option \<Rightarrow> date option \<Rightarrow> int option \<Rightarrow>
   uuid option \<Rightarrow> string option \<Rightarrow> string option \<Rightarrow> error + VacationModel list" where
  "route_search_vacations ilike s sd ed ty eid fname lname =
     (case call_keywords
             [''session'', ''start_date'', ''end_date'', ''type'', ''employee_id'',
              ''first_name'', ''last_name'']
             []
             [''session'', ''start_date'', ''end_date'', ''vacation_type'', ''employee_id'',
              ''first_name'', ''last_name''] of
        Inl e \<Rightarrow> Inl e
      | Inr _ \<Rightarrow> service_search_vacations ilike s sd ed ty eid fname lname)"

section \<open>Facts about the repository\<close>

lemma find_None_filter: "find P xs = None \<Longrightarrow> filter (\<lambda>x. \<not> P x) xs = xs"
  by (induction xs) (auto split: if_splits)

lemma vacations_delete:
  "vacations (snd (delete s i)) = filter (\<lambda>v. vac_id v \<noteq> i) (vacations s)"
  by (auto simp: delete_def get_by_id_def find_None_filter split: option.splits)

lemma employees_delete: "employees (snd (delete s i)) = employees s"
  by (simp add: delete_def split: option.splits)

lemma next_id_delete: "next_id (snd (delete s i)) = next_id s"
  by (simp add: delete_def split: option.splits)

lemma vacations_delete_all:
  "vacations (delete_all s M) = filter (\<lambda>v. vac_id v \<notin> vac_id ` set M) (vacations s)"
proof (induction M arbitrary: s)
  case Nil
  then show ?case by simp
next
  case (Cons m M)
  have "vacations (delete_all s (m # M)) =
        filter (\<lambda>v. vac_id v \<notin> vac_id ` set M) (filter (\<lambda>v. vac_id v \<noteq> vac_id m) (vacations s))"
    by (simp add: Cons.IH vacations_delete)
  also have "\<dots> = filter (\<lambda>v. vac_id v \<notin> vac_id ` set (m # M)) (vacations s)"
    by (auto intro: filter_cong)
  finally show ?case .
qed

lemma employees_delete_all: "employees (delete_all s M) = employees s"
  by (induction M arbitrary: s) (simp_all add: employees_delete)

lemma next_id_delete_all: "next_id (delete_all s M) = next_id s"
  by (induction M arbitrary: s) (simp_all add: next_id_delete)

lemma delete_all_eq:
  "delete_all s M = s\<lparr>vacations := filter (\<lambda>v. vac_id v \<notin> vac_id ` set M) (vacations s)\<rparr>"
  by (rule session.equality)
     (simp_all add: vacations_delete_all employees_delete_all next_id_delete_all)

lemma distinct_ids_filter_mem:
  assumes "distinct (map vac_id vs)" "set M \<subseteq> set vs"
  shows "filter (\<lambda>v. vac_id v \<notin> vac_id ` set M) vs = filter (\<lambda>v. v \<notin> set M) vs"
proof (rule filter_cong[OF refl])
  fix v assume v: "v \<in> set vs"
  show "(vac_id v \<notin> vac_id ` set M) = (v \<notin> set M)"
  proof
    assume "vac_id v \<notin> vac_id ` set M" then show "v \<notin> set M" by blast
  next
    assume n: "v \<notin> set M"
    show "vac_id v \<notin> vac_id ` set M"
    proof
      assume "vac_id v \<in> vac_id ` set M"
      then obtain m where m: "m \<in> set M" "vac_id m = vac_id v" by auto
      with assms(2) have "m \<in> set vs" by blast
      with assms(1) v m(2) have "m = v" by (meson distinct_map inj_onD)
      with m(1) n show False by simp
    qed
  qed
qed

lemma get_overlapping_subset:
  "get_overlapping_or_contiguous s eid ty sd ed = Inr M \<Longrightarrow> set M \<subseteq> set (vacations s)"
  by (auto simp: get_overlapping_or_contiguous_def split: option.splits sum.splits)

lemma get_overlapping_in_range:
  assumes "date_min < sd" "ed < date_max"
  shows "get_overlapping_or_contiguous s eid vacation_type (Some sd) (Some ed) =
           Inr (sort_key start_date
                  (filter (\<lambda>v. employee_id v = eid \<and> type_matches vacation_type v \<and>
                                ((start_date v \<le> ed \<and> end_date v \<ge> sd) \<or>
                                 (start_date v \<ge> sd \<and> start_date v \<le> ed) \<or>
                                 end_date v = sd - 1 \<or> start_date v = ed + 1))
                          (vacations s)))"
  using assms
  by (simp add: get_overlapping_or_contiguous_def minus_one_day_def plus_one_day_def)

lemma get_overlapping_Inr_range:
  assumes "get_overlapping_or_contiguous s eid vacation_type sd_opt ed_opt = Inr M"
  shows "\<exists>sd ed. sd_opt = Some sd \<and> ed_opt = Some ed \<and> date_min < sd \<and> ed < date_max"
  using assms
  by (auto simp: get_overlapping_or_contiguous_def minus_one_day_def plus_one_day_def
           split: option.splits sum.splits if_splits)

lemma get_overlapping_out_of_range:
  assumes "sd - 1 < date_min \<or> date_max < ed + 1"
  shows "get_overlapping_or_contiguous s eid vacation_type (Some sd) (Some ed) =
           Inl (OverflowError ''date value out of range'')"
  using assms
  by (auto simp: get_overlapping_or_contiguous_def minus_one_day_def plus_one_day_def)

lemma EmployeeRepository_get_id:
  "EmployeeRepository_get s eid = Some employee \<Longrightarrow> emp_id employee = eid"
  by (auto simp: EmployeeRepository_get_def find_Some_iff)

lemma left_overlap_subsumed:
  "b1 \<le> b2 \<Longrightarrow>
   ((b1 \<le> ed \<and> b2 \<ge> sd) \<or> (b1 \<ge> sd \<and> b1 \<le> ed) \<or> b2 = sd - 1 \<or> b1 = ed + 1) =
   mergeable sd ed b1 b2"
  for sd ed b1 b2 :: int
  by (auto simp: mergeable_def)

lemma get_overlapping_owner_rows:
  assumes "date_min < sd" "ed < date_max"
  shows "get_overlapping_or_contiguous s eid (Some ty) (Some sd) (Some ed) =
     Inr (sort_key start_date
            (filter (\<lambda>v. (start_date v \<le> ed \<and> end_date v \<ge> sd) \<or>
                          (start_date v \<ge> sd \<and> start_date v \<le> ed) \<or>
                          end_date v = sd - 1 \<or> start_date v = ed + 1)
               (filter (\<lambda>v. employee_id v = eid \<and> type v = ty) (vacations s))))"
  unfolding get_overlapping_in_range[OF assms]
  by (simp add: type_matches_def conj_ac cong: conj_cong)

lemma vacations_create:
  "vacations (snd (create s obj eid)) =
     vacations s @ [\<lparr>start_date = start_date obj, end_date = end_date obj, type = type obj,
                     vac_id = next_id s, employee_id = eid\<rparr>]"
  by (simp add: create_def Let_def)

lemma fst_create:
  "fst (create s obj eid) =
     \<lparr>start_date = start_date obj, end_date = end_date obj, type = type obj,
      vac_id = next_id s, employee_id = eid\<rparr>"
  by (simp add: create_def Let_def)

lemma employees_create: "employees (snd (create s obj eid)) = employees s"
  by (simp add: create_def Let_def)

lemma next_id_create: "next_id (snd (create s obj eid)) = Suc (next_id s)"
  by (simp add: create_def Let_def)

lemma filter_fresh_id:
  "\<forall>v \<in> set vs. vac_id v < n \<Longrightarrow> filter (\<lambda>v. vac_id v \<noteq> n) vs = vs"
  by (induction vs) auto

section \<open>Creating a vacation\<close>

lemma create_vacation_unfold:
  assumes owner: "EmployeeRepository_get s eid = Some employee"
      and valid: "start_date C \<le> end_date C" "type C = 0 \<or> type C = 1"
      and M: "get_overlapping_or_contiguous s eid (Some (type C))
                (Some (start_date C)) (Some (end_date C)) = Inr M"
  shows "create_vacation s eid C =
           (if M \<noteq> [] then
              (Inr (fst (create (delete_all s M)
                      \<lparr>start_date = min (start_date C) (start_date (hd M)),
                       end_date = max (end_date C) (end_date (last M)), type = type C\<rparr> eid)),
               snd (create (delete_all s M)
                      \<lparr>start_date = min (start_date C) (start_date (hd M)),
                       end_date = max (end_date C) (end_date (last M)), type = type C\<rparr> eid))
            else (Inr (fst (create s C eid)), snd (create s C eid)))"
proof -
  have e: "get_employee s eid = Inr employee" "emp_id employee = eid"
    using owner by (simp_all add: get_employee_def EmployeeRepository_get_id)
  have init: "VacationBase_init (type C) (min (start_date C) (start_date (hd M)))
                 (max (end_date C) (end_date (last M))) =
              Inr \<lparr>start_date = min (start_date C) (start_date (hd M)),
                   end_date = max (end_date C) (end_date (last M)), type = type C\<rparr>"
    using valid by (auto simp: VacationBase_init_def)
  show ?thesis
    using e M by (simp add: create_vacation_def init Let_def split: prod.splits)
qed

text \<open>
  At the ends of the date range the candidate query raises before anything is read or
  written: \<open>create_vacation\<close> fails with \<open>OverflowError\<close> and stores nothing.
\<close>

lemma create_vacation_out_of_range:
  assumes "EmployeeRepository_get s eid = Some employee"
      and "start_date C - 1 < date_min \<or> date_max < end_date C + 1"
  shows "create_vacation s eid C = (Inl (OverflowError ''date value out of range''), s)"
  using assms(1)
  by (simp add: create_vacation_def get_employee_def get_overlapping_out_of_range[OF assms(2)])

text \<open>
  Claim C1 (create path). For a validated candidate \<open>C\<close> and an existing owner, let \<open>M\<close>
  be the candidates retrieved for the owner, the type and the range of \<open>C\<close>. If \<open>M\<close> is
  empty, \<open>C\<close> is stored as a new row and returned with its own dates and type. If \<open>M\<close>
  is not empty, every row of \<open>M\<close> is removed from the table and exactly one row is added and
  returned: it has the owner and type of \<open>C\<close>, starts at the minimum of \<open>C\<close>'s start and
  the start of the first candidate, and ends at the maximum of \<open>C\<close>'s end and the end of
  the last candidate.
\<close>

theorem create_vacation_path:
  assumes owner: "EmployeeRepository_get s eid = Some employee"
      and valid: "start_date C \<le> end_date C" "type C = 0 \<or> type C = 1"
      and ids: "ids_ok s"
      and M: "get_overlapping_or_contiguous s eid (Some (type C))
                (Some (start_date C)) (Some (end_date C)) = Inr M"
  shows "(M = [] \<longrightarrow>
            create_vacation s eid C =
              (Inr \<lparr>start_date = start_date C, end_date = end_date C, type = type C,
                    vac_id = next_id s, employee_id = eid\<rparr>,
               s\<lparr>vacations := vacations s @
                    [\<lparr>start_date = start_date C, end_date = end_date C, type = type C,
                      vac_id = next_id s, employee_id = eid\<rparr>],
                 next_id := Suc (next_id s)\<rparr>)) \<and>
         (M \<noteq> [] \<longrightarrow>
            create_vacation s eid C =
              (Inr \<lparr>start_date = min (start_date C) (start_date (hd M)),
                    end_date = max (end_date C) (end_date (last M)), type = type C,
                    vac_id = next_id s, employee_id = eid\<rparr>,
               s\<lparr>vacations := filter (\<lambda>v. v \<notin> set M) (vacations s) @
                    [\<lparr>start_date = min (start_date C) (start_date (hd M)),
                      end_date = max (end_date C) (end_date (last M)), type = type C,
                      vac_id = next_id s, employee_id = eid\<rparr>],
                 next_id := Suc (next_id s)\<rparr>))"
proof -
  have sub: "set M \<subseteq> set (vacations s)" using M by (rule get_overlapping_subset)
  have d: "distinct (map vac_id (vacations s))" using ids by (simp add: ids_ok_def)
  have del: "delete_all s M = s\<lparr>vacations := filter (\<lambda>v. v \<notin> set M) (vacations s)\<rparr>"
    by (simp add: delete_all_eq distinct_ids_filter_mem[OF d sub])
  show ?thesis
    unfolding create_vacation_unfold[OF owner valid M]
    by (simp add: del create_def Let_def)
qed

theorem create_vacation_path_witness:
  "create_vacation two_paid 1 \<lparr>start_date = 6, end_date = 9, type = 1\<rparr> =
     (Inr (row 2 1 1 1 15), two_paid\<lparr>vacations := [row 2 1 1 1 15], next_id := 3\<rparr>) \<and>
   create_vacation two_paid 2 \<lparr>start_date = 6, end_date = 9, type = 1\<rparr> =
     (Inr (row 2 2 1 6 9),
      two_paid\<lparr>vacations := [row 0 1 1 1 5, row 1 1 1 10 15, row 2 2 1 6 9], next_id := 3\<rparr>)"
proof -
  let ?C = "\<lparr>start_date = 6, end_date = 9, type = 1\<rparr> :: VacationBase"
  have o1: "EmployeeRepository_get two_paid 1 = Some ada"
    by (simp add: EmployeeRepository_get_def two_paid_def ada_def bob_def)
  have o2: "EmployeeRepository_get two_paid 2 = Some bob"
    by (simp add: EmployeeRepository_get_def two_paid_def ada_def bob_def)
  have v1: "start_date ?C \<le> end_date ?C" by simp
  have v2: "type ?C = 0 \<or> type ?C = 1" by simp
  have i: "ids_ok two_paid" by (simp add: ids_ok_def two_paid_def row_def)
  have m1: "get_overlapping_or_contiguous two_paid 1 (Some (type ?C))
              (Some (start_date ?C)) (Some (end_date ?C)) = Inr [row 0 1 1 1 5, row 1 1 1 10 15]"
    by (simp add: get_overlapping_or_contiguous_def minus_one_day_def plus_one_day_def
          date_min_def date_max_def two_paid_def row_def type_matches_def)
  have m2: "get_overlapping_or_contiguous two_paid 2 (Some (type ?C))
              (Some (start_date ?C)) (Some (end_date ?C)) = Inr []"
    by (simp add: get_overlapping_or_contiguous_def minus_one_day_def plus_one_day_def
          date_min_def date_max_def two_paid_def row_def type_matches_def)
  show ?thesis
    using create_vacation_path[OF o1 v1 v2 i m1] create_vacation_path[OF o2 v1 v2 i m2]
    by (simp add: two_paid_def row_def)
qed

text \<open>
  Claim C6 (unknown owner). When the employee id does not resolve to an employee,
  \<open>create_vacation\<close> fails with the error raised by the owner lookup
  (\<open>ValueError("Employee not found")\<close>, the kind the specification calls OwnerNotFound)
  and the session is the one it was given: no row is added, deleted or changed.
\<close>

theorem create_vacation_unknown_owner:
  "EmployeeRepository_get s eid = None \<Longrightarrow>
   create_vacation s eid vacation_data = (Inl (ValueError ''Employee not found''), s)"
  by (simp add: create_vacation_def get_employee_def)

theorem create_vacation_unknown_owner_witness:
  "EmployeeRepository_get two_paid 3 = None \<and>
   create_vacation two_paid 3 \<lparr>start_date = 6, end_date = 9, type = 1\<rparr> =
     (Inl (ValueError ''Employee not found''), two_paid)"
proof -
  have h: "EmployeeRepository_get two_paid 3 = None"
    by (simp add: EmployeeRepository_get_def two_paid_def ada_def bob_def)
  show ?thesis using h create_vacation_unknown_owner[OF h] by simp
qed

text \<open>
  Claim C8 (idempotent consolidation). Let the Paid (type 1) vacations stored for employee
  \<open>E\<close> be exactly one row with range 1 to 4. Creating Paid 5 to 10 returns the range
  1 to 10 and leaves exactly one Paid row for \<open>E\<close>, with range 1 to 10. Creating Paid 5 to
  10 again returns range 1 to 10 again, leaves exactly one Paid row for \<open>E\<close>, with range
  1 to 10, and the list of (type, start, end) of the rows of \<open>E\<close> is what it was after the
  first call.
\<close>

theorem idempotent_consolidation:
  assumes owner: "EmployeeRepository_get s E = Some employee"
      and ids: "ids_ok s"
      and paid: "filter (\<lambda>v. employee_id v = E \<and> type v = 1) (vacations s) = [v0]"
      and v0: "start_date v0 = 1" "end_date v0 = 4"
  shows "(let C = \<lparr>start_date = 5, end_date = 10, type = 1\<rparr>;
              r1 = create_vacation s E C;
              r2 = create_vacation (snd r1) E C
          in fst r1 = Inr (row (next_id s) E 1 1 10) \<and>
             filter (\<lambda>v. employee_id v = E \<and> type v = 1) (vacations (snd r1)) =
               [row (next_id s) E 1 1 10] \<and>
             fst r2 = Inr (row (Suc (next_id s)) E 1 1 10) \<and>
             filter (\<lambda>v. employee_id v = E \<and> type v = 1) (vacations (snd r2)) =
               [row (Suc (next_id s)) E 1 1 10] \<and>
             map (\<lambda>v. (type v, start_date v, end_date v))
                 (filter (\<lambda>v. employee_id v = E) (vacations (snd r2))) =
             map (\<lambda>v. (type v, start_date v, end_date v))
                 (filter (\<lambda>v. employee_id v = E) (vacations (snd r1))))"
proof -
  let ?C = "\<lparr>start_date = 5, end_date = 10, type = 1\<rparr> :: VacationBase"
  let ?n1 = "row (next_id s) E 1 1 10"
  let ?n2 = "row (Suc (next_id s)) E 1 1 10"
  let ?rest = "filter (\<lambda>v. vac_id v \<noteq> vac_id v0) (vacations s)"
  let ?paid = "\<lambda>v::VacationModel. employee_id v = E \<and> type v = 1"
  have val: "start_date ?C \<le> end_date ?C" "type ?C = 0 \<or> type ?C = 1" by simp_all
  have lt: "\<forall>v \<in> set (vacations s). vac_id v < next_id s"
    using ids by (simp add: ids_ok_def)
  \<comment> \<open>first call\<close>
  define s1 where
    "s1 = snd (create (delete_all s [v0]) \<lparr>start_date = 1, end_date = 10, type = 1\<rparr> E)"
  have rng: "date_min < 5" "10 < date_max" by (simp_all add: date_min_def date_max_def)
  have M1: "get_overlapping_or_contiguous s E (Some (type ?C)) (Some (start_date ?C))
              (Some (end_date ?C)) = Inr [v0]"
    using v0 by (simp add: get_overlapping_owner_rows[OF rng] paid)
  have r1: "create_vacation s E ?C = (Inr ?n1, s1)"
    using v0 unfolding s1_def
    by (simp add: create_vacation_unfold[OF owner val M1] fst_create next_id_delete row_def)
  have vs1: "vacations s1 = ?rest @ [?n1]"
    unfolding s1_def by (simp add: vacations_create vacations_delete next_id_delete row_def)
  have "filter ?paid ?rest = filter (\<lambda>v. vac_id v \<noteq> vac_id v0) (filter ?paid (vacations s))"
    by (simp add: conj_commute)
  then have prest: "filter ?paid ?rest = []" by (simp add: paid)
  have p1: "filter ?paid (vacations s1) = [?n1]"
    unfolding vs1 filter_append prest by (simp add: row_def)
  \<comment> \<open>second call\<close>
  have owner1: "EmployeeRepository_get s1 E = Some employee"
    using owner unfolding s1_def
    by (simp add: EmployeeRepository_get_def employees_create employees_delete)
  have M2: "get_overlapping_or_contiguous s1 E (Some (type ?C)) (Some (start_date ?C))
              (Some (end_date ?C)) = Inr [?n1]"
    using get_overlapping_owner_rows[OF rng, of s1 E 1] by (simp add: p1) (simp add: row_def)
  have nid1: "next_id s1 = Suc (next_id s)"
    unfolding s1_def by (simp add: next_id_create next_id_delete)
  define s2 where
    "s2 = snd (create (delete_all s1 [?n1]) \<lparr>start_date = 1, end_date = 10, type = 1\<rparr> E)"
  have r2: "create_vacation s1 E ?C = (Inr ?n2, s2)"
    unfolding s2_def
    by (simp add: create_vacation_unfold[OF owner1 val M2] fst_create next_id_delete nid1)
       (simp add: row_def)
  have "\<forall>v \<in> set ?rest. vac_id v < next_id s" using lt by simp
  then have fr: "filter (\<lambda>v. vac_id v \<noteq> next_id s) ?rest = ?rest"
    by (rule filter_fresh_id)
  have idn1: "vac_id ?n1 = next_id s" by (simp add: row_def)
  have "vacations s2 = filter (\<lambda>v. vac_id v \<noteq> next_id s) (vacations s1) @ [?n2]"
    unfolding s2_def
    by (simp add: vacations_create vacations_delete next_id_delete nid1 idn1) (simp add: row_def)
  then have vs2: "vacations s2 = ?rest @ [?n2]"
    unfolding vs1 filter_append fr by (simp add: row_def)
  have p2: "filter ?paid (vacations s2) = [?n2]"
    unfolding vs2 filter_append prest by (simp add: row_def)
  have same: "map (\<lambda>v. (type v, start_date v, end_date v))
                 (filter (\<lambda>v. employee_id v = E) (vacations s2)) =
              map (\<lambda>v. (type v, start_date v, end_date v))
                 (filter (\<lambda>v. employee_id v = E) (vacations s1))"
    unfolding vs1 vs2 by (simp add: row_def)
  show ?thesis
    unfolding Let_def r1 fst_conv snd_conv r2
    using p1 p2 same by simp
qed

theorem idempotent_consolidation_witness:
  "(let C = \<lparr>start_date = 5, end_date = 10, type = 1\<rparr>;
        r1 = create_vacation paid_1_4 1 C;
        r2 = create_vacation (snd r1) 1 C
    in fst r1 = Inr (row 3 1 1 1 10) \<and>
       filter (\<lambda>v. employee_id v = 1 \<and> type v = 1) (vacations (snd r1)) = [row 3 1 1 1 10] \<and>
       fst r2 = Inr (row 4 1 1 1 10) \<and>
       filter (\<lambda>v. employee_id v = 1 \<and> type v = 1) (vacations (snd r2)) = [row 4 1 1 1 10] \<and>
       map (\<lambda>v. (type v, start_date v, end_date v))
           (filter (\<lambda>v. employee_id v = 1) (vacations (snd r2))) =
       map (\<lambda>v. (type v, start_date v, end_date v))
           (filter (\<lambda>v. employee_id v = 1) (vacations (snd r1))))"
proof -
  have o: "EmployeeRepository_get paid_1_4 1 = Some ada"
    by (simp add: EmployeeRepository_get_def paid_1_4_def ada_def bob_def)
  have i: "ids_ok paid_1_4" by (simp add: ids_ok_def paid_1_4_def row_def)
  have p: "filter (\<lambda>v. employee_id v = 1 \<and> type v = 1) (vacations paid_1_4) = [row 0 1 1 1 4]"
    by (simp add: paid_1_4_def row_def)
  have a: "start_date (row 0 1 1 1 4) = 1" "end_date (row 0 1 1 1 4) = 4"
    by (simp_all add: row_def)
  have n: "next_id paid_1_4 = 3" by (simp add: paid_1_4_def)
  show ?thesis using idempotent_consolidation[OF o i p a] unfolding n by simp
qed

section \<open>Candidate retrieval\<close>

text \<open>
  Claim C2 (candidate retrieval), as stated, fails in two places. On a table with a row
  that ends before it starts (days 7 to 2), the query for days 6 to 8 returns that row
  through its second clause (\<open>start_date >= start\<close> and \<open>start_date <= end\<close>), although the
  row neither overlaps the range nor is one day away from it. And the query whose start is
  \<open>date.min\<close> returns nothing: computing the day before raises \<open>OverflowError\<close>.
\<close>

theorem get_overlapping_or_contiguous_not_exact:
  "get_overlapping_or_contiguous inverted_row 1 (Some 1) (Some 6) (Some 8) =
     Inr [row 0 1 1 7 2] \<and>
   \<not> mergeable 6 8 7 2 \<and>
   date_min \<le> 5 \<and>
   get_overlapping_or_contiguous two_paid 1 (Some 1) (Some date_min) (Some 5) =
     Inl (OverflowError ''date value out of range'')"
  by (simp add: get_overlapping_or_contiguous_def minus_one_day_def plus_one_day_def
        date_min_def date_max_def inverted_row_def row_def type_matches_def mergeable_def)

text \<open>
  Claim C2 (candidate retrieval), amended. On a table whose rows satisfy the data-model
  invariant \<open>start_date \<le> end_date\<close>, and for a range that starts after \<open>date.min\<close> and
  ends before \<open>date.max\<close>, the query returns exactly the rows (with multiplicity) of the
  given employee and type whose range overlaps the queried range, or ends one day before
  its start, or begins one day after its end; and the result is ordered by \<open>start_date\<close>
  ascending.
\<close>

theorem get_overlapping_or_contiguous_exact:
  assumes "well_formed (vacations s)" and "date_min < sd" and "ed < date_max"
  shows "\<exists>M. get_overlapping_or_contiguous s eid (Some ty) (Some sd) (Some ed) = Inr M \<and>
             mset M = mset (filter (\<lambda>v. employee_id v = eid \<and> type v = ty \<and>
                                        mergeable sd ed (start_date v) (end_date v))
                                   (vacations s)) \<and>
             sorted (map start_date M)"
proof -
  have "filter (\<lambda>v. employee_id v = eid \<and> type_matches (Some ty) v \<and>
                    ((start_date v \<le> ed \<and> end_date v \<ge> sd) \<or>
                     (start_date v \<ge> sd \<and> start_date v \<le> ed) \<or>
                     end_date v = sd - 1 \<or> start_date v = ed + 1)) (vacations s) =
        filter (\<lambda>v. employee_id v = eid \<and> type v = ty \<and>
                    mergeable sd ed (start_date v) (end_date v)) (vacations s)"
    using assms(1)
    by (intro filter_cong[OF refl]) (simp add: well_formed_def type_matches_def left_overlap_subsumed)
  then show ?thesis
    unfolding get_overlapping_in_range[OF assms(2,3)] by simp
qed

theorem get_overlapping_or_contiguous_exact_witness:
  "well_formed (vacations two_paid) \<and> date_min < 6 \<and> 8 < date_max \<and>
   (\<exists>M. get_overlapping_or_contiguous two_paid 1 (Some 1) (Some 6) (Some 8) = Inr M \<and>
        mset M = mset (filter (\<lambda>v. employee_id v = 1 \<and> type v = 1 \<and>
                                   mergeable 6 8 (start_date v) (end_date v))
                              (vacations two_paid)) \<and>
        sorted (map start_date M))"
proof -
  have h: "well_formed (vacations two_paid)"
    by (simp add: well_formed_def two_paid_def row_def)
  have l: "date_min < 6" by (simp add: date_min_def)
  have u: "8 < date_max" by (simp add: date_max_def)
  show ?thesis using h l u get_overlapping_or_contiguous_exact[OF h l u] by simp
qed

section \<open>Reference bounds and robust bounds\<close>

lemma fold_min_sorted:
  fixes a :: int
  shows "sorted xs \<Longrightarrow> xs \<noteq> [] \<Longrightarrow> fold min xs a = min a (hd xs)"
proof (induction xs arbitrary: a)
  case Nil
  then show ?case by simp
next
  case (Cons x xs)
  show ?case
  proof (cases xs)
    case Nil
    then show ?thesis by (simp add: min.commute)
  next
    case (Cons y ys)
    with Cons.prems have "x \<le> y" "sorted xs" by auto
    with Cons.IH[of "min x a"] Cons show ?thesis by auto
  qed
qed

lemma fold_max_sorted:
  fixes a :: int
  shows "sorted xs \<Longrightarrow> xs \<noteq> [] \<Longrightarrow> fold max xs a = max a (last xs)"
proof (induction xs arbitrary: a)
  case Nil
  then show ?case by simp
next
  case (Cons x xs)
  show ?case
  proof (cases xs)
    case Nil
    then show ?thesis by (simp add: max.commute)
  next
    case (Cons y ys)
    with Cons.prems have xy: "x \<le> y" and so: "sorted xs" by auto
    have "y \<le> last xs" using so Cons
      by (metis last_in_set list.discI list.sel(1) list.set_cases set_ConsD sorted_simps(2) order_refl)
    with Cons.IH[of "max x a"] Cons so xy show ?thesis by auto
  qed
qed

lemma fold_min_Min: "fold min xs (a::int) = Min (insert a (set xs))"
  by (metis Min.set_eq_fold list.simps(15))

lemma fold_max_Max: "fold max xs (a::int) = Max (insert a (set xs))"
  by (metis Max.set_eq_fold list.simps(15))

lemma ends_sorted:
  assumes "sorted (map start_date M)" "antichain M" "well_formed M"
      and "\<forall>v \<in> set M. \<forall>w \<in> set M. same_owner_type v w"
  shows "sorted (map end_date M)"
  using assms
proof (induction M)
  case Nil
  then show ?case by simp
next
  case (Cons m M)
  have rest: "sorted (map end_date M)"
    using Cons by (auto simp: well_formed_def)
  have "end_date m \<le> end_date w" if w: "w \<in> set M" for w
  proof -
    have sw: "start_date m \<le> start_date w" using Cons.prems(1) w by auto
    have wf: "start_date w \<le> end_date w" using Cons.prems(3) w by (simp add: well_formed_def)
    have "\<not> touches m w" using Cons.prems(2) w by simp
    moreover have "same_owner_type m w" using Cons.prems(4) w by simp
    ultimately have "\<not> mergeable (start_date m) (end_date m) (start_date w) (end_date w)"
      by (simp add: touches_def)
    with sw wf show ?thesis by (auto simp: mergeable_def)
  qed
  with rest show ?case by simp
qed

text \<open>
  The bounds of the row that \<open>create_vacation\<close> stores are the reference bounds of the
  candidates it retrieved.
\<close>

lemma create_vacation_reference_bounds:
  assumes owner: "EmployeeRepository_get s eid = Some employee"
      and valid: "start_date C \<le> end_date C" "type C = 0 \<or> type C = 1"
      and M: "get_overlapping_or_contiguous s eid (Some (type C))
                (Some (start_date C)) (Some (end_date C)) = Inr M"
      and ne: "M \<noteq> []"
  shows "\<exists>v. fst (create_vacation s eid C) = Inr v \<and>
             reference_bounds (start_date C) (end_date C) M = Some (start_date v, end_date v)"
  using ne
  by (simp add: create_vacation_unfold[OF owner valid M] fst_create reference_bounds_def)

text \<open>
  Claim C9 (reference bounds equal robust bounds under the invariant). For a non-empty
  candidate list of one owner and type that is ordered by start, whose rows are pairwise
  neither overlapping nor one day apart, and whose rows satisfy \<open>start_date \<le> end_date\<close>,
  the bounds taken from the first and last candidate are the bounds obtained by reducing
  \<open>min\<close> over all starts and \<open>max\<close> over all ends, together with the new range. They are
  the bounds the code uses: whenever \<open>create_vacation\<close>, for an existing owner and a
  validated candidate, retrieves this list, the row it stores and returns has exactly
  these bounds.
\<close>

theorem reference_bounds_eq_robust:
  assumes "M \<noteq> []" "sorted (map start_date M)" "antichain M" "well_formed M"
      and "\<forall>v \<in> set M. \<forall>w \<in> set M. same_owner_type v w"
  shows "reference_bounds sd ed M = robust_bounds sd ed M \<and>
         robust_bounds sd ed M =
           Some (Min (insert sd (start_date ` set M)), Max (insert ed (end_date ` set M))) \<and>
         (\<forall>s eid employee C.
            EmployeeRepository_get s eid = Some employee \<longrightarrow>
            start_date C \<le> end_date C \<longrightarrow> (type C = 0 \<or> type C = 1) \<longrightarrow>
            get_overlapping_or_contiguous s eid (Some (type C))
              (Some (start_date C)) (Some (end_date C)) = Inr M \<longrightarrow>
            (\<exists>v. fst (create_vacation s eid C) = Inr v \<and>
                 Some (start_date v, end_date v) =
                   reference_bounds (start_date C) (end_date C) M \<and>
                 Some (start_date v, end_date v) =
                   robust_bounds (start_date C) (end_date C) M))"
proof -
  have e: "sorted (map end_date M)" using assms(2-5) by (rule ends_sorted)
  have eq: "reference_bounds a b M = robust_bounds a b M" for a b
  proof -
    have 1: "fold min (map start_date M) a = min a (start_date (hd M))"
      using fold_min_sorted[OF assms(2), of a] assms(1) by (simp add: hd_map)
    have 2: "fold max (map end_date M) b = max b (end_date (last M))"
      using fold_max_sorted[OF e, of b] assms(1) by (simp add: last_map)
    show ?thesis
      using assms(1) by (simp add: reference_bounds_def robust_bounds_def 1 2)
  qed
  have 3: "fold min (map start_date M) sd = Min (insert sd (start_date ` set M))"
    using fold_min_Min[of "map start_date M" sd] by simp
  have 4: "fold max (map end_date M) ed = Max (insert ed (end_date ` set M))"
    using fold_max_Max[of "map end_date M" ed] by simp
  have rob: "robust_bounds sd ed M =
      Some (Min (insert sd (start_date ` set M)), Max (insert ed (end_date ` set M)))"
    using assms(1) unfolding robust_bounds_def 3 4 by simp
  have link: "\<exists>v. fst (create_vacation s eid C) = Inr v \<and>
                 Some (start_date v, end_date v) =
                   reference_bounds (start_date C) (end_date C) M \<and>
                 Some (start_date v, end_date v) =
                   robust_bounds (start_date C) (end_date C) M"
    if "EmployeeRepository_get s eid = Some employee" "start_date C \<le> end_date C"
       "type C = 0 \<or> type C = 1"
       "get_overlapping_or_contiguous s eid (Some (type C))
          (Some (start_date C)) (Some (end_date C)) = Inr M"
    for s eid employee C
    using create_vacation_reference_bounds[OF that assms(1)] eq[of "start_date C" "end_date C"]
    by auto
  show ?thesis
    using eq[of sd ed] rob link by blast
qed

theorem reference_bounds_eq_robust_witness:
  "reference_bounds 6 9 [row 0 1 1 1 5, row 1 1 1 10 15] = Some (1, 15) \<and>
   robust_bounds 6 9 [row 0 1 1 1 5, row 1 1 1 10 15] = Some (1, 15) \<and>
   (\<exists>v. fst (create_vacation two_paid 1 \<lparr>start_date = 6, end_date = 9, type = 1\<rparr>) = Inr v \<and>
        start_date v = 1 \<and> end_date v = 15)"
proof -
  let ?M = "[row 0 1 1 1 5, row 1 1 1 10 15]"
  let ?C = "\<lparr>start_date = 6, end_date = 9, type = 1\<rparr> :: VacationBase"
  have a: "?M \<noteq> []" by simp
  have b: "sorted (map start_date ?M)" by (simp add: row_def)
  have c: "antichain ?M" by (simp add: row_def touches_def mergeable_def)
  have d: "well_formed ?M" by (simp add: well_formed_def row_def)
  have e: "\<forall>v \<in> set ?M. \<forall>w \<in> set ?M. same_owner_type v w"
    by (simp add: same_owner_type_def row_def)
  have o: "EmployeeRepository_get two_paid 1 = Some ada"
    by (simp add: EmployeeRepository_get_def two_paid_def ada_def bob_def)
  have v1: "start_date ?C \<le> end_date ?C" by simp
  have v2: "type ?C = 0 \<or> type ?C = 1" by simp
  have q: "get_overlapping_or_contiguous two_paid 1 (Some (type ?C))
             (Some (start_date ?C)) (Some (end_date ?C)) = Inr ?M"
    by (simp add: get_overlapping_or_contiguous_def minus_one_day_def plus_one_day_def
          date_min_def date_max_def two_paid_def row_def type_matches_def)
  have r: "reference_bounds 6 9 ?M = Some (1, 15)"
    by (simp add: reference_bounds_def row_def)
  from reference_bounds_eq_robust[OF a b c d e, of 6 9]
  have main: "reference_bounds 6 9 ?M = robust_bounds 6 9 ?M"
    and code: "\<And>s eid employee C.
            EmployeeRepository_get s eid = Some employee \<Longrightarrow>
            start_date C \<le> end_date C \<Longrightarrow> (type C = 0 \<or> type C = 1) \<Longrightarrow>
            get_overlapping_or_contiguous s eid (Some (type C))
              (Some (start_date C)) (Some (end_date C)) = Inr ?M \<Longrightarrow>
            (\<exists>v. fst (create_vacation s eid C) = Inr v \<and>
                 Some (start_date v, end_date v) =
                   reference_bounds (start_date C) (end_date C) ?M \<and>
                 Some (start_date v, end_date v) =
                   robust_bounds (start_date C) (end_date C) ?M)"
    by blast+
  from code[OF o v1 v2 q] obtain v where
    v: "fst (create_vacation two_paid 1 ?C) = Inr v"
       "Some (start_date v, end_date v) = reference_bounds 6 9 ?M"
    by auto
  from v(2) r have "start_date v = 1 \<and> end_date v = 15" by simp
  with v(1) main r show ?thesis by auto
qed

section \<open>Invariants of the store\<close>

lemma mergeable_iff:
  "a1 \<le> a2 \<Longrightarrow> b1 \<le> b2 \<Longrightarrow> mergeable a1 a2 b1 b2 \<longleftrightarrow> a1 \<le> b2 + 1 \<and> b1 \<le> a2 + 1"
  by (auto simp: mergeable_def)

lemma mergeable_sym: "mergeable a1 a2 b1 b2 \<longleftrightarrow> mergeable b1 b2 a1 a2"
  by (auto simp: mergeable_def)

lemma touches_sym: "touches v w \<longleftrightarrow> touches w v"
  using mergeable_sym[of "start_date v" "end_date v" "start_date w" "end_date w"]
  by (auto simp: touches_def same_owner_type_def)

lemma antichain_filter: "antichain vs \<Longrightarrow> antichain (filter P vs)"
  by (induction vs) auto

lemma antichain_snoc:
  "antichain (vs @ [n]) \<longleftrightarrow> antichain vs \<and> (\<forall>v \<in> set vs. \<not> touches v n)"
  by (induction vs) auto

lemma antichain_apart:
  "antichain vs \<Longrightarrow> v \<in> set vs \<Longrightarrow> w \<in> set vs \<Longrightarrow> v \<noteq> w \<Longrightarrow> \<not> touches v w"
proof (induction vs)
  case Nil
  then show ?case by simp
next
  case (Cons x xs)
  then show ?case using touches_sym by auto
qed

lemma get_overlapping_set:
  assumes "well_formed (vacations s)"
      and "get_overlapping_or_contiguous s eid (Some ty) (Some sd) (Some ed) = Inr M"
  shows "set M = {v \<in> set (vacations s). employee_id v = eid \<and> type v = ty \<and>
                    mergeable sd ed (start_date v) (end_date v)}"
proof -
  have rng: "date_min < sd" "ed < date_max"
    using get_overlapping_Inr_range[OF assms(2)] by auto
  have M: "M = sort_key start_date
                 (filter (\<lambda>v. employee_id v = eid \<and> type_matches (Some ty) v \<and>
                               ((start_date v \<le> ed \<and> end_date v \<ge> sd) \<or>
                                (start_date v \<ge> sd \<and> start_date v \<le> ed) \<or>
                                end_date v = sd - 1 \<or> start_date v = ed + 1))
                         (vacations s))"
    using assms(2) unfolding get_overlapping_in_range[OF rng] by simp
  have "v \<in> set M \<longleftrightarrow> v \<in> set (vacations s) \<and> employee_id v = eid \<and> type v = ty \<and>
          mergeable sd ed (start_date v) (end_date v)" for v
  proof (cases "v \<in> set (vacations s)")
    case True
    then have "start_date v \<le> end_date v" using assms(1) by (simp add: well_formed_def)
    from left_overlap_subsumed[OF this, of ed sd] True show ?thesis
      unfolding M by (auto simp: type_matches_def)
  next
    case False
    then show ?thesis unfolding M by auto
  qed
  then show ?thesis by blast
qed

text \<open>
  The merged range does not touch a row that the candidate query left out: such a row
  lies more than one day before, or more than one day after, the candidate range and
  every retrieved row.
\<close>

lemma hull_apart:
  assumes inv: "antichain vs" "well_formed vs"
      and C: "sd \<le> ed"
      and M: "set M = {v \<in> set vs. employee_id v = eid \<and> type v = ty \<and>
                         mergeable sd ed (start_date v) (end_date v)}"
      and r: "r \<in> set vs" "r \<notin> set M" "employee_id r = eid" "type r = ty"
      and ns: "if M = [] then ns = sd else ns = min sd (start_date (hd M))"
      and ne: "if M = [] then ne = ed else ne = max ed (end_date (last M))"
  shows "\<not> mergeable (start_date r) (end_date r) ns ne"
proof -
  have wr: "start_date r \<le> end_date r" using inv(2) r(1) by (simp add: well_formed_def)
  have nC: "\<not> mergeable sd ed (start_date r) (end_date r)" using M r by auto
  have wn: "ns \<le> ne" using ns ne C by (auto split: if_splits)
  have apart: "end_date r + 1 < start_date m \<or> end_date m + 1 < start_date r"
    if "m \<in> set M" for m
  proof -
    have m: "m \<in> set vs" "employee_id m = eid" "type m = ty" using that M by auto
    have wm: "start_date m \<le> end_date m" using inv(2) m(1) by (simp add: well_formed_def)
    have "r \<noteq> m" using that r(2) by auto
    from antichain_apart[OF inv(1) r(1) m(1) this]
    have "\<not> mergeable (start_date r) (end_date r) (start_date m) (end_date m)"
      using m r by (simp add: touches_def same_owner_type_def)
    then show ?thesis using mergeable_iff[OF wr wm] by auto
  qed
  have near: "sd \<le> end_date m + 1 \<and> start_date m \<le> ed + 1" if "m \<in> set M" for m
  proof -
    have m: "m \<in> set vs" "mergeable sd ed (start_date m) (end_date m)" using that M by auto
    have wm: "start_date m \<le> end_date m" using inv(2) m(1) by (simp add: well_formed_def)
    show ?thesis using m(2) mergeable_iff[OF C wm] by simp
  qed
  from nC mergeable_iff[OF C wr]
  consider (left) "end_date r + 1 < sd" | (right) "ed + 1 < start_date r" by fastforce
  then show ?thesis
  proof cases
    case left
    have "end_date r + 1 < ns"
    proof (cases "M = []")
      case True
      then show ?thesis using ns left by simp
    next
      case False
      then have h: "hd M \<in> set M" by simp
      from apart[OF h] near[OF h] left wr have "end_date r + 1 < start_date (hd M)" by auto
      then show ?thesis using ns left False by simp
    qed
    then show ?thesis using mergeable_iff[OF wr wn] by auto
  next
    case right
    have "ne + 1 < start_date r"
    proof (cases "M = []")
      case True
      then show ?thesis using ne right by simp
    next
      case False
      then have l: "last M \<in> set M" by simp
      from apart[OF l] near[OF l] right wr have "end_date (last M) + 1 < start_date r" by auto
      then show ?thesis using ne right False by simp
    qed
    then show ?thesis using mergeable_iff[OF wr wn] by auto
  qed
qed

text \<open>
  \<open>create_vacation\<close> for an existing owner and a validated candidate succeeds and
  preserves the invariant.
\<close>

lemma create_vacation_preserves_invariant:
  assumes owner: "EmployeeRepository_get s eid = Some employee"
      and valid: "start_date C \<le> end_date C" "type C = 0 \<or> type C = 1"
      and rng: "date_min < start_date C" "end_date C < date_max"
      and inv: "store_invariant s"
  shows "\<exists>v s'. create_vacation s eid C = (Inr v, s') \<and> store_invariant s'"
proof -
  let ?vs = "vacations s"
  have a: "antichain ?vs" and w: "well_formed ?vs" and ids: "ids_ok s"
    using inv by (simp_all add: store_invariant_def)
  obtain M where M: "get_overlapping_or_contiguous s eid (Some (type C))
                       (Some (start_date C)) (Some (end_date C)) = Inr M"
    by (simp add: get_overlapping_in_range[OF rng])
  have setM: "set M = {v \<in> set ?vs. employee_id v = eid \<and> type v = type C \<and>
                         mergeable (start_date C) (end_date C) (start_date v) (end_date v)}"
    using w M by (rule get_overlapping_set)
  define ns where "ns = (if M = [] then start_date C else min (start_date C) (start_date (hd M)))"
  define ne where "ne = (if M = [] then end_date C else max (end_date C) (end_date (last M)))"
  define n where "n = \<lparr>start_date = ns, end_date = ne, type = type C,
                         vac_id = next_id s, employee_id = eid\<rparr>"
  define rest where "rest = filter (\<lambda>v. vac_id v \<notin> vac_id ` set M) ?vs"
  define s' where "s' = s\<lparr>vacations := rest @ [n], next_id := Suc (next_id s)\<rparr>"
  have res: "create_vacation s eid C = (Inr n, s')"
  proof (cases "M = []")
    case True
    have "C = \<lparr>start_date = start_date C, end_date = end_date C, type = type C\<rparr>" by simp
    then show ?thesis
      unfolding create_vacation_unfold[OF owner valid M]
      using True by (simp add: create_def Let_def n_def ns_def ne_def s'_def rest_def)
  next
    case False
    then show ?thesis
      unfolding create_vacation_unfold[OF owner valid M]
      by (simp add: create_def Let_def delete_all_eq n_def ns_def ne_def s'_def rest_def)
  qed
  have sub: "set M \<subseteq> set ?vs" using setM by auto
  have d: "distinct (map vac_id ?vs)" using ids by (simp add: ids_ok_def)
  have rest_eq: "rest = filter (\<lambda>v. v \<notin> set M) ?vs"
    unfolding rest_def by (rule distinct_ids_filter_mem[OF d sub])
  have wn: "ns \<le> ne" using valid(1) by (auto simp: ns_def ne_def)
  have "\<not> touches r n" if r: "r \<in> set rest" for r
  proof
    assume t: "touches r n"
    have r1: "r \<in> set ?vs" "r \<notin> set M" using r by (simp_all add: rest_eq)
    have r2: "employee_id r = eid" "type r = type C"
      using t by (simp_all add: touches_def same_owner_type_def n_def)
    have "\<not> mergeable (start_date r) (end_date r) ns ne"
      by (rule hull_apart[OF a w valid(1) setM r1 r2]) (simp_all add: ns_def ne_def)
    with t show False by (simp add: touches_def n_def)
  qed
  then have a': "antichain (rest @ [n])"
    using a by (simp add: antichain_snoc rest_def antichain_filter)
  have w': "well_formed (rest @ [n])"
    using w wn by (auto simp: well_formed_def rest_def n_def)
  have lt: "\<forall>v \<in> set ?vs. vac_id v < next_id s" using ids by (simp add: ids_ok_def)
  have "distinct (map vac_id rest)" unfolding rest_def using d by (rule distinct_map_filter)
  moreover have "next_id s \<notin> vac_id ` set rest" using lt by (auto simp: rest_def)
  ultimately have i': "ids_ok s'"
    using lt by (auto simp: ids_ok_def s'_def n_def rest_def less_Suc_eq)
  have "store_invariant s'"
    using a' w' i' by (simp add: store_invariant_def s'_def)
  with res show ?thesis by blast
qed

lemma get_by_id_Some:
  "get_by_id s vid = Some v \<Longrightarrow> v \<in> set (vacations s) \<and> vac_id v = vid"
  by (auto simp: get_by_id_def find_Some_iff)

lemma get_by_id_None: "get_by_id s vid = None \<longleftrightarrow> vid \<notin> vac_id ` set (vacations s)"
  by (auto simp: get_by_id_def find_None_iff)

lemma map_update_absent:
  "vid \<notin> vac_id ` set vs \<Longrightarrow> map (\<lambda>w. if vac_id w = vid then v' else w) vs = vs"
  by (induction vs) auto

lemma antichain_map_update:
  assumes "antichain vs" "distinct (map vac_id vs)"
      and "\<forall>w \<in> set vs. vac_id w \<noteq> vid \<longrightarrow> \<not> touches w v'"
  shows "antichain (map (\<lambda>w. if vac_id w = vid then v' else w) vs)"
  using assms
proof (induction vs)
  case Nil
  then show ?case by simp
next
  case (Cons x xs)
  let ?f = "\<lambda>w. if vac_id w = vid then v' else w"
  have IH: "antichain (map ?f xs)" using Cons by simp
  show ?case
  proof (cases "vac_id x = vid")
    case True
    then have "vid \<notin> vac_id ` set xs" using Cons.prems(2) by auto
    then have same: "map ?f xs = xs" and ne: "\<forall>w \<in> set xs. vac_id w \<noteq> vid"
      by (simp_all add: map_update_absent) auto
    have "\<forall>w \<in> set xs. \<not> touches v' w"
      using Cons.prems(3) ne touches_sym by auto
    then show ?thesis using True same Cons.prems(1) by simp
  next
    case False
    have "\<not> touches x (?f w)" if "w \<in> set xs" for w
      using that Cons.prems(1,3) False by auto
    then have "\<forall>y \<in> set (map ?f xs). \<not> touches x y"
      unfolding set_map by blast
    then show ?thesis using False IH by simp
  qed
qed

lemma patch_given:
  "patch s vid \<lparr>upd_start_date = Given a, upd_end_date = Given b, upd_type = Given t\<rparr> =
     (case get_by_id s vid of
        None \<Rightarrow> (Inr None, s)
      | Some v \<Rightarrow>
          (Inr (Some (v\<lparr>start_date := a, end_date := b, type := t\<rparr>)),
           s\<lparr>vacations := map (\<lambda>w. if vac_id w = vid
                                     then v\<lparr>start_date := a, end_date := b, type := t\<rparr> else w)
                                (vacations s)\<rparr>))"
  by (simp add: patch_def Let_def split: option.splits)

lemma patch_given_preserves_invariant:
  assumes inv: "store_invariant s" and ab: "a \<le> b"
      and apart: "\<forall>w \<in> set (vacations s). vac_id w \<noteq> vid \<longrightarrow>
                    employee_id w = eid \<longrightarrow> type w = t \<longrightarrow>
                    \<not> mergeable (start_date w) (end_date w) a b"
      and own: "\<forall>w \<in> set (vacations s). vac_id w = vid \<longrightarrow> employee_id w = eid"
  shows "store_invariant
           (snd (patch s vid \<lparr>upd_start_date = Given a, upd_end_date = Given b,
                               upd_type = Given t\<rparr>))"
proof (cases "get_by_id s vid")
  case None
  then show ?thesis using inv by (simp add: patch_given)
next
  case (Some v)
  let ?v' = "v\<lparr>start_date := a, end_date := b, type := t\<rparr>"
  let ?f = "\<lambda>w. if vac_id w = vid then ?v' else w"
  have v: "v \<in> set (vacations s)" "vac_id v = vid" using get_by_id_Some[OF Some] by simp_all
  have ev: "employee_id v = eid" using own v by simp
  have a: "antichain (vacations s)" and w: "well_formed (vacations s)" and ids: "ids_ok s"
    using inv by (simp_all add: store_invariant_def)
  have d: "distinct (map vac_id (vacations s))" using ids by (simp add: ids_ok_def)
  have "\<forall>w \<in> set (vacations s). vac_id w \<noteq> vid \<longrightarrow> \<not> touches w ?v'"
    using apart ev by (auto simp: touches_def same_owner_type_def)
  then have a': "antichain (map ?f (vacations s))"
    by (rule antichain_map_update[OF a d])
  have w': "well_formed (map ?f (vacations s))"
    using w ab by (auto simp: well_formed_def)
  have mm: "map vac_id (map ?f xs) = map vac_id xs" for xs
    using v(2) by (induction xs) auto
  have "distinct (map vac_id (map ?f (vacations s)))"
    unfolding mm by (rule d)
  moreover have "\<forall>x \<in> set (map ?f (vacations s)). vac_id x < next_id s"
    using ids v by (auto simp: ids_ok_def)
  ultimately have i': "ids_ok (s\<lparr>vacations := map ?f (vacations s)\<rparr>)"
    unfolding ids_ok_def by simp
  show ?thesis
    using a' w' i' by (simp add: patch_given Some store_invariant_def)
qed

lemma delete_all_preserves_invariant:
  assumes "store_invariant s"
  shows "store_invariant (delete_all s M)"
proof -
  have "ids_ok (delete_all s M)"
    using assms by (auto simp: store_invariant_def ids_ok_def delete_all_eq distinct_map_filter)
  moreover have "antichain (vacations (delete_all s M))"
    using assms by (simp add: store_invariant_def delete_all_eq antichain_filter)
  moreover have "well_formed (vacations (delete_all s M))"
    using assms by (simp add: store_invariant_def delete_all_eq well_formed_def)
  ultimately show ?thesis by (simp add: store_invariant_def)
qed

text \<open>
  \<open>update_vacation\<close> preserves the invariant whenever \<open>type\<close>, \<open>start_date\<close> and
  \<open>end_date\<close> are all supplied (whatever its result).
\<close>

lemma update_vacation_typed_preserves_invariant:
  assumes inv: "store_invariant s" and valid: "sd \<le> ed"
  shows "store_invariant
           (snd (update_vacation s eid vid
                   \<lparr>upd_start_date = Given sd, upd_end_date = Given ed, upd_type = Given ty\<rparr>))"
proof (cases "get_employee s eid")
  case (Inl e)
  then show ?thesis using inv by (simp add: update_vacation_def)
next
  case (Inr employee)
  then have eid: "emp_id employee = eid"
    by (auto simp: get_employee_def EmployeeRepository_get_id split: option.splits)
  let ?vs = "vacations s"
  let ?U = "\<lparr>upd_start_date = Given sd, upd_end_date = Given ed, upd_type = Given ty\<rparr>"
  have a: "antichain ?vs" and w: "well_formed ?vs" and ids: "ids_ok s"
    using inv by (simp_all add: store_invariant_def)
  have d: "distinct (map vac_id ?vs)" using ids by (simp add: ids_ok_def)
  show ?thesis
  proof (cases "filter (\<lambda>v. vac_id v = vid) (employee_vacations s employee) = []")
    case True
    then show ?thesis using inv Inr by (simp add: update_vacation_def)
  next
    case False
    then obtain v0 where v0: "v0 \<in> set ?vs" "vac_id v0 = vid" "employee_id v0 = eid"
      using eid by (auto simp: employee_vacations_def filter_empty_conv)
    have own: "\<forall>w \<in> set ?vs. vac_id w = vid \<longrightarrow> employee_id w = eid"
    proof (intro ballI impI)
      fix w assume "w \<in> set ?vs" "vac_id w = vid"
      with d v0 have "w = v0" by (metis distinct_map inj_onD)
      then show "employee_id w = eid" using v0 by simp
    qed
    show ?thesis
    proof (cases "get_overlapping_or_contiguous s eid (Some ty) (Some sd) (Some ed)")
      case (Inl e)
      then show ?thesis using inv Inr False by (simp add: update_vacation_def Let_def)
    next
      case M: (Inr M)
    have setM: "set M = {v \<in> set ?vs. employee_id v = eid \<and> type v = ty \<and>
                           mergeable sd ed (start_date v) (end_date v)}"
      using w M by (rule get_overlapping_set)
    have sub: "set M \<subseteq> set ?vs" using setM by auto
    show ?thesis
    proof (cases "M = []")
      case True
      have res: "update_vacation s eid vid ?U = patch s vid ?U"
        using Inr False M True by (simp add: update_vacation_def Let_def)
      have "\<forall>w \<in> set ?vs. vac_id w \<noteq> vid \<longrightarrow> employee_id w = eid \<longrightarrow> type w = ty \<longrightarrow>
              \<not> mergeable (start_date w) (end_date w) sd ed"
        using setM True mergeable_sym by auto
      from patch_given_preserves_invariant[OF inv valid this own] res show ?thesis by simp
    next
      case ne: False
      define ns where "ns = min sd (start_date (hd M))"
      define ne' where "ne' = max ed (end_date (last M))"
      let ?s1 = "delete_all s M"
      let ?U' = "\<lparr>upd_start_date = Given ns, upd_end_date = Given ne', upd_type = Given ty\<rparr>"
      have res: "update_vacation s eid vid ?U = patch ?s1 vid ?U'"
        using Inr False M ne by (simp add: update_vacation_def Let_def ns_def ne'_def)
      have inv1: "store_invariant ?s1" using inv by (rule delete_all_preserves_invariant)
      have vs1: "vacations ?s1 = filter (\<lambda>v. v \<notin> set M) ?vs"
        by (simp add: delete_all_eq distinct_ids_filter_mem[OF d sub])
      have wn: "ns \<le> ne'" using valid by (auto simp: ns_def ne'_def)
      have apart: "\<forall>r \<in> set (vacations ?s1). vac_id r \<noteq> vid \<longrightarrow> employee_id r = eid \<longrightarrow>
                     type r = ty \<longrightarrow> \<not> mergeable (start_date r) (end_date r) ns ne'"
      proof (intro ballI impI)
        fix r assume r: "r \<in> set (vacations ?s1)" "employee_id r = eid" "type r = ty"
        then have r1: "r \<in> set ?vs" "r \<notin> set M" by (simp_all add: vs1)
        show "\<not> mergeable (start_date r) (end_date r) ns ne'"
          by (rule hull_apart[OF a w valid setM r1 r(2,3)]) (simp_all add: ns_def ne'_def ne)
      qed
      have own1: "\<forall>w \<in> set (vacations ?s1). vac_id w = vid \<longrightarrow> employee_id w = eid"
        using own by (simp add: vs1)
      from patch_given_preserves_invariant[OF inv1 wn apart own1] res show ?thesis by simp
    qed
    qed
  qed
qed

lemma well_formed_patch:
  assumes "well_formed (vacations s)"
      and "\<exists>a b. upd_start_date U = Given a \<and> upd_end_date U = Given b \<and> a \<le> b"
  shows "well_formed (vacations (snd (patch s vid U)))"
proof -
  obtain a b where ab: "upd_start_date U = Given a" "upd_end_date U = Given b" "a \<le> b"
    using assms(2) by blast
  show ?thesis
    using assms(1) ab
    by (auto simp: patch_def well_formed_def Let_def split: option.splits sum.splits)
qed

lemma VacationUpdate_init_dates:
  assumes "VacationUpdate_init sd ed ty = Inr U"
  shows "upd_start_date U = sd \<and> upd_end_date U = ed \<and> upd_type U = ty \<and>
         (\<forall>a b. sd = Given a \<longrightarrow> ed = Given b \<longrightarrow> a \<le> b)"
  using assms
  by (cases sd; cases ed)
     (auto simp: VacationUpdate_init_def split: option.splits if_splits)

text \<open>
  Every update with a payload accepted by the schema keeps \<open>start_date \<le> end_date\<close> on
  all rows, whichever fields are supplied.
\<close>

lemma update_vacation_well_formed:
  assumes wf: "well_formed (vacations s)"
      and init: "VacationUpdate_init sd ed ty = Inr U"
  shows "well_formed (vacations (snd (update_vacation s eid vid U)))"
proof -
  have U: "upd_start_date U = sd" "upd_end_date U = ed" "upd_type U = ty"
    and ord: "\<And>a b. sd = Given a \<Longrightarrow> ed = Given b \<Longrightarrow> a \<le> b"
    using VacationUpdate_init_dates[OF init] by auto
  show ?thesis
  proof (cases "get_overlapping_or_contiguous s eid (attr ty) (attr sd) (attr ed)")
    case (Inl e)
    then show ?thesis
      using wf U by (simp add: update_vacation_def Let_def split: sum.splits)
  next
    case (Inr M)
    from get_overlapping_Inr_range[OF Inr] obtain a b
      where "attr sd = Some a" "attr ed = Some b" by blast
    then have sd: "sd = Given a" and ed: "ed = Given b"
      by (cases sd; cases ed; simp)+
    have ab: "a \<le> b" using ord[OF sd ed] .
    have p0: "well_formed (vacations (snd (patch s vid U)))"
      by (rule well_formed_patch[OF wf]) (use U sd ed ab in auto)
    have p1: "well_formed (vacations (snd (patch (delete_all s M) vid
                (U\<lparr>upd_start_date := Given (min a x), upd_end_date := Given (max b y)\<rparr>))))"
      for x y
    proof (rule well_formed_patch)
      show "well_formed (vacations (delete_all s M))"
        using wf by (simp add: delete_all_eq well_formed_def)
      show "\<exists>a' b'. upd_start_date (U\<lparr>upd_start_date := Given (min a x),
                        upd_end_date := Given (max b y)\<rparr>) = Given a' \<and>
                     upd_end_date (U\<lparr>upd_start_date := Given (min a x),
                        upd_end_date := Given (max b y)\<rparr>) = Given b' \<and> a' \<le> b'"
        using ab by auto
    qed
    show ?thesis
      using wf p0 p1 U sd ed Inr
      by (simp add: update_vacation_def Let_def split: sum.splits)
  qed
qed

section \<open>Updating a vacation\<close>

lemma two_paid_reachable:
  "snd (create_vacation (snd (create_vacation no_vacations 1
          \<lparr>start_date = 1, end_date = 5, type = 1\<rparr>)) 1
          \<lparr>start_date = 10, end_date = 15, type = 1\<rparr>) = two_paid"
  by (simp add: create_vacation_def get_employee_def EmployeeRepository_get_def
        get_overlapping_or_contiguous_def type_matches_def create_def
        minus_one_day_def plus_one_day_def date_min_def date_max_def
        no_vacations_def two_paid_def ada_def bob_def row_def Let_def)

lemmas eval_defs = update_vacation_def get_employee_def EmployeeRepository_get_def
  employee_vacations_def get_overlapping_or_contiguous_def type_matches_def patch_def
  get_by_id_def delete_def two_paid_def ada_def bob_def row_def Let_def
  minus_one_day_def plus_one_day_def date_min_def date_max_def

text \<open>
  Claim C3 (antichain invariant), evaluated where the code breaks it. The state
  \<open>two_paid\<close> is reached by two calls of \<open>create_vacation\<close> and satisfies the invariant. Updating Ada's vacation 0 with the dates 16 to 20
  and no \<open>type\<close> is accepted by the schema and succeeds: the candidate query runs with
  type \<open>None\<close>, finds nothing, and the dates are written to the row as they are. The
  resulting table holds Paid 16 to 20 next to Paid 10 to 15 for Ada, which are one day
  apart.
\<close>

theorem update_type_unset_breaks_antichain:
  "snd (create_vacation (snd (create_vacation no_vacations 1
          \<lparr>start_date = 1, end_date = 5, type = 1\<rparr>)) 1
          \<lparr>start_date = 10, end_date = 15, type = 1\<rparr>) = two_paid \<and>
   antichain (vacations two_paid) \<and>
   VacationUpdate_init (Given 16) (Given 20) Unset =
     Inr \<lparr>upd_start_date = Given 16, upd_end_date = Given 20, upd_type = Unset\<rparr> \<and>
   update_vacation two_paid 1 0
       \<lparr>upd_start_date = Given 16, upd_end_date = Given 20, upd_type = Unset\<rparr> =
     (Inr (Some (row 0 1 1 16 20)),
      two_paid\<lparr>vacations := [row 0 1 1 16 20, row 1 1 1 10 15]\<rparr>) \<and>
   \<not> antichain [row 0 1 1 16 20, row 1 1 1 10 15]"
  unfolding two_paid_reachable
  by (simp add: eval_defs VacationUpdate_init_def touches_def same_owner_type_def mergeable_def)

text \<open>
  Claim C4 (update path with merge), evaluated where the code breaks it. Updating Ada's
  Paid vacation 0 (days 1 to 5) to Paid 1 to 7: the candidates are the row itself, which
  is deleted before \<open>patch\<close> looks it up, so \<open>patch\<close> finds no row and returns \<open>None\<close>. No
  row with range 1 to 7 is stored or returned, and the row being updated is lost.
\<close>

theorem update_deletes_its_own_row:
  "VacationUpdate_init (Given 1) (Given 7) (Given 1) =
     Inr \<lparr>upd_start_date = Given 1, upd_end_date = Given 7, upd_type = Given 1\<rparr> \<and>
   get_overlapping_or_contiguous two_paid 1 (Some 1) (Some 1) (Some 7) = Inr [row 0 1 1 1 5] \<and>
   update_vacation two_paid 1 0
       \<lparr>upd_start_date = Given 1, upd_end_date = Given 7, upd_type = Given 1\<rparr> =
     (Inr None, two_paid\<lparr>vacations := [row 1 1 1 10 15]\<rparr>)"
  by (simp add: eval_defs VacationUpdate_init_def)

text \<open>
  Claim C5 (partial update resolution), evaluated where the code breaks it. On
  \<open>two_paid\<close>, updating vacation 0 with only \<open>type = 0\<close> raises \<open>ArgumentError\<close> (the
  unset dates reach the candidate query as \<open>None\<close>), whereas the update with the resolved values
  (0, 1, 5) succeeds. Updating it with the dates 16 to 20 and no type stores 16 to 20
  beside 10 to 15, whereas the update with the resolved values (1, 16, 20) merges both
  rows into 10 to 20.
\<close>

theorem partial_update_not_resolved:
  "update_vacation two_paid 1 0
       \<lparr>upd_start_date = Unset, upd_end_date = Unset, upd_type = Given 0\<rparr> =
     (Inl (ArgumentError ''operator cannot be used with None''), two_paid) \<and>
   update_vacation two_paid 1 0
       \<lparr>upd_start_date = Given 1, upd_end_date = Given 5, upd_type = Given 0\<rparr> =
     (Inr (Some (row 0 1 0 1 5)),
      two_paid\<lparr>vacations := [row 0 1 0 1 5, row 1 1 1 10 15]\<rparr>) \<and>
   update_vacation two_paid 1 0
       \<lparr>upd_start_date = Given 16, upd_end_date = Given 20, upd_type = Unset\<rparr> =
     (Inr (Some (row 0 1 1 16 20)),
      two_paid\<lparr>vacations := [row 0 1 1 16 20, row 1 1 1 10 15]\<rparr>) \<and>
   update_vacation two_paid 1 0
       \<lparr>upd_start_date = Given 16, upd_end_date = Given 20, upd_type = Given 1\<rparr> =
     (Inr (Some (row 0 1 1 10 20)), two_paid\<lparr>vacations := [row 0 1 1 10 20]\<rparr>)"
  by (simp add: eval_defs)

section \<open>Deleting a vacation\<close>

lemma delete_absent:
  "get_by_id s vacation_id = None \<Longrightarrow> delete s vacation_id = (None, s)"
  by (simp add: delete_def)

lemma delete_vacation_not_found:
  "EmployeeRepository_get s eid = Some employee \<Longrightarrow> VacationRepository_get s vacation_id = None \<Longrightarrow>
   delete_vacation s eid vacation_id = (Inl (ValueError ''Vacation not found''), s)"
  by (simp add: delete_vacation_def get_employee_def)

text \<open>
  Claim C7 (deletion duality), evaluated where the code breaks it. Bob exists and owns
  no vacation; vacation 0 belongs to Ada. \<open>delete_vacation\<close> addressed to Bob with
  vacation id 0 succeeds and deletes Ada's row: the owner is looked up but the vacation
  is not checked against it.
\<close>

theorem delete_vacation_ignores_owner:
  "EmployeeRepository_get two_paid 2 = Some bob \<and>
   employee_vacations two_paid bob = [] \<and>
   delete_vacation two_paid 2 0 = (Inr (), two_paid\<lparr>vacations := [row 1 1 1 10 15]\<rparr>)"
  by (simp add: delete_vacation_def VacationRepository_get_def eval_defs)

section \<open>The search route\<close>

lemma service_search_vacations_ok:
  "service_search_vacations ilike s sd ed ty eid fname lname =
     Inr (search ilike s sd ed ty eid fname lname)"
  by (simp add: service_search_vacations_def call_keywords_def)

text \<open>
  Claim C10 (the search route is uncallable). For every input the route handler fails
  with \<open>TypeError\<close>: it passes the keyword \<open>vacation_type\<close>, which is not a parameter of
  the service method, so the repository is never reached and no list is returned.
\<close>

theorem route_search_vacations_raises:
  "route_search_vacations ilike s sd ed ty eid fname lname =
     Inl (TypeError ''got an unexpected keyword argument vacation_type'')"
  by (simp add: route_search_vacations_def call_keywords_def)

end
